theory Spec2Isabelle
  imports Complex_Main "HOL-Library.Multiset"
begin

section \<open>CrisisMap AI: the retrieval-augmented response pipeline\<close>

text \<open>
  A shallow embedding of the query-answering core of the repository:
  \<^item> \<^verbatim>\<open>database/db_operations.py\<close>: \<^verbatim>\<open>search_by_vector\<close>, \<^verbatim>\<open>search_by_text\<close>;
  \<^item> \<^verbatim>\<open>models/llm_response.py\<close>: \<^verbatim>\<open>generate_response\<close>, \<^verbatim>\<open>_generate_web_based_response\<close>,
    \<^verbatim>\<open>_generate_db_based_response\<close>, \<^verbatim>\<open>_format_response_text\<close>, \<^verbatim>\<open>find_and_respond\<close>;
  \<^item> \<^verbatim>\<open>api/app.py\<close>: the handlers \<^verbatim>\<open>llm_response\<close> and \<^verbatim>\<open>crisis_query\<close>.

  Python strings are modelled as \<^typ>\<open>string\<close> (lists of characters with code points
  below 256).  The external collaborators (web scraper, embedding model, MongoDB
  collection, language model, summarizer) are parameters: each call either returns a
  value or raises, which is a value of the sum type \<open>error + 'a\<close>.
\<close>

subsection \<open>Errors and documents\<close>

text \<open>Any Python exception derived from \<^verbatim>\<open>Exception\<close> (what \<^verbatim>\<open>except Exception\<close> catches).\<close>

datatype error = Exception

text \<open>The \<^verbatim>\<open>_id\<close> of a MongoDB document: an ObjectId, or its string form after
  \<^verbatim>\<open>str(result['_id'])\<close>.\<close>

datatype bson_id = ObjectId string | IdStr string

fun py_str_id :: "bson_id \<Rightarrow> string" where
  "py_str_id (ObjectId h) = h"
| "py_str_id (IdStr s) = s"

text \<open>A crisis event (a dict in the source).  A field is \<open>None\<close> when the key is absent;
  the values are the strings the loaders store.  \<open>ev_data\<close> is the nested \<^verbatim>\<open>data\<close> dict,
  its values rendered as strings.\<close>

record event =
  ev_id :: bson_id
  ev_title :: "string option"
  ev_text :: "string option"
  ev_summary :: "string option"
  ev_date :: "string option"
  ev_location :: "string option"
  ev_country :: "string option"
  ev_event_type :: "string option"
  ev_category :: "string option"
  ev_casualties :: "string option"
  ev_impacts :: "string option"
  ev_data :: "(string \<times> string) list option"

subsection \<open>The vector store (\<^verbatim>\<open>CrisisEventOperations\<close>)\<close>

definition VECTOR_DIMENSION :: nat where
  "VECTOR_DIMENSION = 384"

text \<open>
  The state of the store as the search functions see it:
  \<^item> \<open>connected\<close>: what \<^verbatim>\<open>db_conn.is_connected()\<close> returns;
  \<^item> \<open>collection\<close>: \<open>None\<close> when \<^verbatim>\<open>self.collection is None\<close>, else the documents of the
    collection in natural order;
  \<^item> \<open>knn_search\<close>: the outcome of \<^verbatim>\<open>collection.aggregate(pipeline)\<close> for a query vector and
    \<open>k\<close> (the Atlas index search), which may raise;
  \<^item> \<open>find_raises\<close>: whether \<^verbatim>\<open>collection.find().limit(limit)\<close> raises.
\<close>

record db =
  connected :: bool
  collection :: "event list option"
  knn_search :: "real list \<Rightarrow> int \<Rightarrow> error + event list"
  find_raises :: bool

definition is_db_available :: "db \<Rightarrow> bool" where
  "is_db_available d = (connected d \<and> collection d \<noteq> None)"

text \<open>\<^verbatim>\<open>cursor.limit(n)\<close> of MongoDB: the first \<open>n\<close> documents for a positive \<open>n\<close>; a limit of
  0 is no limit, a negative limit is its absolute value.\<close>

definition mongo_limit :: "int \<Rightarrow> 'a list \<Rightarrow> 'a list" where
  "mongo_limit n xs = (if n = 0 then xs else take (nat \<bar>n\<bar>) xs)"

text \<open>\<^verbatim>\<open>list(self.collection.find().limit(limit))\<close>\<close>

definition find_limit :: "db \<Rightarrow> int \<Rightarrow> error + event list" where
  "find_limit d limit =
     (if find_raises d then Inl Exception
      else case collection d of
             None \<Rightarrow> Inl Exception
           | Some docs \<Rightarrow> Inr (mongo_limit limit docs))"

text \<open>The resizing of a query vector whose length is not \<open>VECTOR_DIMENSION\<close>.\<close>

definition resize_vector :: "real list \<Rightarrow> real list" where
  "resize_vector v =
     (if length v \<noteq> VECTOR_DIMENSION then
        (if length v > VECTOR_DIMENSION then take VECTOR_DIMENSION v
         else v @ replicate (VECTOR_DIMENSION - length v) 0)
      else v)"

definition stringify_id :: "event \<Rightarrow> event" where
  "stringify_id r = r\<lparr>ev_id := IdStr (py_str_id (ev_id r))\<rparr>"

text \<open>The inner \<^verbatim>\<open>try\<close> of \<^verbatim>\<open>search_by_vector\<close>: the index search, the plain \<^verbatim>\<open>find\<close> when it
  returns nothing, and the \<^verbatim>\<open>except\<close> branch that runs the plain \<^verbatim>\<open>find\<close> when anything
  in the \<^verbatim>\<open>try\<close> raised.\<close>

definition vector_or_find :: "db \<Rightarrow> real list \<Rightarrow> int \<Rightarrow> error + event list" where
  "vector_or_find d qv limit =
     (case (case knn_search d qv limit of
              Inl e \<Rightarrow> Inl e
            | Inr results \<Rightarrow> if results = [] then find_limit d limit else Inr results) of
        Inl e \<Rightarrow> find_limit d limit
      | Inr results \<Rightarrow> Inr results)"

definition search_by_vector :: "db \<Rightarrow> real list \<Rightarrow> int \<Rightarrow> event list" where
  "search_by_vector d query_vector limit =
     (if \<not> is_db_available d then []
      else case vector_or_find d (resize_vector query_vector) limit of
             Inl e \<Rightarrow> []
           | Inr results \<Rightarrow> map stringify_id results)"

text \<open>\<^verbatim>\<open>search_by_text\<close>; \<open>generate_embedding\<close> is the method of \<^verbatim>\<open>self.embedding_generator\<close>,
  which may raise.\<close>

definition search_by_text ::
  "db \<Rightarrow> (string \<Rightarrow> error + real list) \<Rightarrow> string \<Rightarrow> int \<Rightarrow> event list" where
  "search_by_text d generate_embedding query limit =
     (if \<not> is_db_available d then []
      else case generate_embedding query of
             Inl e \<Rightarrow> []
           | Inr v \<Rightarrow> search_by_vector d v limit)"

subsection \<open>Python string operations\<close>

text \<open>The characters \<^verbatim>\<open>str.isspace\<close> accepts (and \<^verbatim>\<open>\s\<close> matches) among the code points
  below 256.\<close>

definition is_space :: "char \<Rightarrow> bool" where
  "is_space c = (c \<in> set [CHR 0x09, CHR 0x0A, CHR 0x0B, CHR 0x0C, CHR 0x0D, CHR 0x1C, CHR 0x1D,
                            CHR 0x1E, CHR 0x1F, CHR 0x20, CHR 0x85, CHR 0xA0])"

text \<open>\<^verbatim>\<open>s.startswith(p)\<close>, \<^verbatim>\<open>s.endswith(p)\<close>, \<^verbatim>\<open>p in s\<close>\<close>

fun startswith :: "string \<Rightarrow> string \<Rightarrow> bool" where
  "startswith s [] = True"
| "startswith [] (p # ps) = False"
| "startswith (c # cs) (p # ps) = (c = p \<and> startswith cs ps)"

definition endswith :: "string \<Rightarrow> string \<Rightarrow> bool" where
  "endswith s p = startswith (rev s) (rev p)"

fun contains :: "string \<Rightarrow> string \<Rightarrow> bool" where
  "contains [] p = (p = [])"
| "contains (c # cs) p = (startswith (c # cs) p \<or> contains cs p)"

text \<open>\<^verbatim>\<open>s.strip()\<close>\<close>

definition strip :: "string \<Rightarrow> string" where
  "strip s = rev (dropWhile is_space (rev (dropWhile is_space s)))"

text \<open>The text before and after the first occurrence of \<open>sep\<close>, if there is one.\<close>

fun break_at :: "string \<Rightarrow> string \<Rightarrow> (string \<times> string) option" where
  "break_at sep [] = (if sep = [] then Some ([], []) else None)"
| "break_at sep (c # cs) =
     (if startswith (c # cs) sep then Some ([], drop (length sep) (c # cs))
      else map_option (\<lambda>(a, b). (c # a, b)) (break_at sep cs))"

lemma break_at_shorter:
  "break_at sep s = Some (a, b) \<Longrightarrow> length a + length sep + length b = length s"
proof (induction s arbitrary: a)
  case Nil
  then show ?case by (simp split: if_splits)
next
  case (Cons c cs)
  have sw: "length p \<le> length t" if "startswith t p" for t p
    using that by (induction t p rule: startswith.induct) auto
  show ?case
  proof (cases "startswith (c # cs) sep")
    case True
    with Cons.prems sw [OF True] show ?thesis by auto
  next
    case False
    with Cons.prems obtain a' where "break_at sep cs = Some (a', b)" "a = c # a'"
      by auto
    with Cons.IH show ?thesis by auto
  qed
qed

text \<open>\<^verbatim>\<open>s.split(sep)\<close> for a non-empty separator (Python raises \<^verbatim>\<open>ValueError\<close> on an empty
  one; the source only splits on literals), and \<^verbatim>\<open>s.split(sep, 1)\<close>.\<close>

function py_split :: "string \<Rightarrow> string \<Rightarrow> string list" where
  "py_split sep s =
     (if sep = [] then [s]
      else case break_at sep s of
             None \<Rightarrow> [s]
           | Some (a, b) \<Rightarrow> a # py_split sep b)"
  by pat_completeness auto
termination
proof (relation "measure (\<lambda>(sep, s). length s)")
  show "wf (measure (\<lambda>(sep, s). length s))" by simp
next
  fix sep s :: string and x2 a b
  assume "sep \<noteq> []" "break_at sep s = Some x2" "(a, b) = x2"
  then have "length a + length sep + length b = length s"
    using break_at_shorter by metis
  with \<open>sep \<noteq> []\<close> show "((sep, b), (sep, s)) \<in> measure (\<lambda>(sep, s). length s)"
    by (cases sep) auto
qed

declare py_split.simps [simp del]

definition py_split1 :: "string \<Rightarrow> string \<Rightarrow> string list" where
  "py_split1 sep s = (case break_at sep s of None \<Rightarrow> [s] | Some (a, b) \<Rightarrow> [a, b])"

text \<open>\<^verbatim>\<open>sep.join(parts)\<close>\<close>

fun join :: "string \<Rightarrow> string list \<Rightarrow> string" where
  "join sep [] = []"
| "join sep [p] = p"
| "join sep (p # q # ps) = p @ sep @ join sep (q # ps)"

text \<open>\<^verbatim>\<open>s.rsplit(c, 1)\<close> for a string that contains the character \<open>c\<close>: the text before and
  after its last occurrence.\<close>

definition rsplit1 :: "char \<Rightarrow> string \<Rightarrow> string \<times> string" where
  "rsplit1 c s =
     (rev (drop 1 (dropWhile (\<lambda>x. x \<noteq> c) (rev s))), rev (takeWhile (\<lambda>x. x \<noteq> c) (rev s)))"

subsection \<open>The source extractor (in \<^verbatim>\<open>crisis_query\<close>, \<^verbatim>\<open>api/app.py\<close>)\<close>

definition sources_marker :: string where
  "sources_marker = ''**Sources:**''"

text \<open>\<^verbatim>\<open>CrisisResponse\<close>: \<open>sources\<close> is an optional field whose default is \<^verbatim>\<open>None\<close>.\<close>

record crisis_response =
  response :: string
  sources :: "(string \<times> string) list option"

text \<open>The body of the loop over \<^verbatim>\<open>source_lines\<close>: the citations one line contributes.\<close>

definition parse_source_line :: "string \<Rightarrow> (string \<times> string) list" where
  "parse_source_line line =
     (if startswith line ''-'' then
        (let source_text = strip (drop 1 line) in
         if CHR ''('' \<in> set source_text \<and> endswith source_text '')'' then
           (case rsplit1 (CHR ''('') source_text of
              (title_part, source_part) \<Rightarrow> [(strip title_part, strip (butlast source_part))])
         else [(source_text, ''Unknown'')])
      else [])"

definition extract_sources :: "string \<Rightarrow> crisis_response" where
  "extract_sources resp =
     (if contains resp sources_marker then
        (case py_split sources_marker resp of
           [] \<Rightarrow> \<lparr>response = [], sources = Some []\<rparr>
         | [p0] \<Rightarrow> \<lparr>response = strip p0, sources = Some []\<rparr>
         | p0 # p1 # ps \<Rightarrow>
             \<lparr>response = strip p0,
              sources = Some (concat (map parse_source_line (py_split ''\<newline>'' (strip p1))))\<rparr>)
      else \<lparr>response = resp, sources = None\<rparr>)"

subsection \<open>The text normalizer (\<^verbatim>\<open>_format_response_text\<close>)\<close>

text \<open>The character classes of the regular expressions: \<^verbatim>\<open>[a-z]\<close>, \<^verbatim>\<open>[A-Za-z]\<close>, \<^verbatim>\<open>[.!?]\<close>.\<close>

definition lowers :: string where
  "lowers = ''abcdefghijklmnopqrstuvwxyz''"

definition uppers :: string where
  "uppers = ''ABCDEFGHIJKLMNOPQRSTUVWXYZ''"

definition is_lower :: "char \<Rightarrow> bool" where
  "is_lower c = (c \<in> set lowers)"

definition is_upper :: "char \<Rightarrow> bool" where
  "is_upper c = (c \<in> set uppers)"

definition is_letter :: "char \<Rightarrow> bool" where
  "is_letter c = (is_lower c \<or> is_upper c)"

definition is_term :: "char \<Rightarrow> bool" where
  "is_term c = (c \<in> set ''.!?'')"

text \<open>\<^verbatim>\<open>c.upper()\<close> and \<^verbatim>\<open>c.lower()\<close> on one character.  The normalizer upper-cases only a
  character that is a whitespace or in \<^verbatim>\<open>[a-z]\<close>, and lower-cases only the letters of its
  own word list, so the ASCII letters are the ones that change.\<close>

definition upper_char :: "char \<Rightarrow> char" where
  "upper_char c = (case map_of (zip lowers uppers) c of Some u \<Rightarrow> u | None \<Rightarrow> c)"

definition lower_char :: "char \<Rightarrow> char" where
  "lower_char c = (case map_of (zip uppers lowers) c of Some l \<Rightarrow> l | None \<Rightarrow> c)"

text \<open>\<^verbatim>\<open>re.split(r'([.!?][\s\n]+)', s)\<close> (and the same with \<^verbatim>\<open>[\s]+\<close>): the pieces between the
  matches, alternating with the matched terminators; \<open>acc\<close> is the piece being read.\<close>

function re_split_acc :: "string \<Rightarrow> string \<Rightarrow> string list" where
  "re_split_acc acc [] = [acc]"
| "re_split_acc acc (c # cs) =
     (if is_term c \<and> (case cs of [] \<Rightarrow> False | d # ds \<Rightarrow> is_space d)
      then acc # (c # takeWhile is_space cs) # re_split_acc [] (dropWhile is_space cs)
      else re_split_acc (acc @ [c]) cs)"
  by pat_completeness auto
termination
  by (relation "measure (\<lambda>(acc, s). length s)")
     (auto simp: length_dropWhile_le less_Suc_eq_le)

definition re_split_sentences :: "string \<Rightarrow> string list" where
  "re_split_sentences s = re_split_acc [] s"

text \<open>\<^verbatim>\<open>re.match(r'[.!?][\s\n]+', p)\<close> and \<^verbatim>\<open>re.match(r'^[a-z]', s)\<close>\<close>

definition matches_terminator :: "string \<Rightarrow> bool" where
  "matches_terminator p = (case p of c # d # ds \<Rightarrow> is_term c \<and> is_space d | _ \<Rightarrow> False)"

definition starts_lower :: "string \<Rightarrow> bool" where
  "starts_lower s = (case s of c # cs \<Rightarrow> is_lower c | [] \<Rightarrow> False)"

text \<open>\<^verbatim>\<open>s.startswith(("'", '"'))\<close>\<close>

definition starts_quote :: "string \<Rightarrow> bool" where
  "starts_quote s = (case s of c # cs \<Rightarrow> c = CHR 0x27 \<or> c = CHR 0x22 | [] \<Rightarrow> False)"

text \<open>\<^verbatim>\<open>s[0].upper() + s[1:]\<close>, reached only for a non-empty \<open>s\<close>.\<close>

definition capitalize_first :: "string \<Rightarrow> string" where
  "capitalize_first s = (case s of c # cs \<Rightarrow> upper_char c # cs | [] \<Rightarrow> [])"

text \<open>The \<^verbatim>\<open>else\<close> branch of both loops for a piece that has no terminator after it: kept
  only when it is not blank.\<close>

definition standalone :: "bool \<Rightarrow> string \<Rightarrow> string list" where
  "standalone cap s = (if strip s \<noteq> [] then [if cap then capitalize_first s else s] else [])"

text \<open>The first \<^verbatim>\<open>while\<close> loop, over the list \<^verbatim>\<open>sentences\<close>: the list is consumed two
  pieces at a time when the second is a terminator, one piece otherwise.\<close>

fun format_sentences :: "string list \<Rightarrow> string list" where
  "format_sentences [] = []"
| "format_sentences [s] = standalone (starts_lower (strip s)) s"
| "format_sentences (s # p # rest) =
     (if matches_terminator p then
        (let sentence = s @ p in
         (if sentence \<noteq> [] \<and> \<not> starts_quote (strip sentence) \<and> length (strip sentence) > 0
             \<and> starts_lower (strip sentence)
          then capitalize_first sentence else sentence) # format_sentences rest)
      else standalone (starts_lower (strip s)) s @ format_sentences (p # rest))"

text \<open>\<^verbatim>\<open>re.sub(r'\s*\n\s*', ' ', s)\<close>: every maximal run of whitespace that contains a
  newline becomes one space.\<close>

function sub_newline_runs :: "string \<Rightarrow> string" where
  "sub_newline_runs [] = []"
| "sub_newline_runs (c # cs) =
     (if is_space c then
        (if CHR ''\<newline>'' \<in> set (takeWhile is_space (c # cs)) then '' ''
         else takeWhile is_space (c # cs)) @ sub_newline_runs (dropWhile is_space cs)
      else c # sub_newline_runs cs)"
  by pat_completeness auto
termination
  by (relation "measure length") (auto simp: length_dropWhile_le less_Suc_eq_le)

text \<open>The second \<^verbatim>\<open>while\<close> loop, over \<^verbatim>\<open>para_sentences\<close>; \<open>first\<close> is \<^verbatim>\<open>i == 0\<close>.\<close>

fun format_para_sentences :: "bool \<Rightarrow> string list \<Rightarrow> string list" where
  "format_para_sentences first [] = []"
| "format_para_sentences first [s] = standalone (first \<and> starts_lower s) s"
| "format_para_sentences first (s # p # rest) =
     (if matches_terminator p then
        (let sentence = s @ p in
         (if first \<and> sentence \<noteq> [] \<and> length sentence > 0 \<and> starts_lower sentence
          then capitalize_first sentence else sentence) # format_para_sentences False rest)
      else standalone (first \<and> starts_lower s) s @ format_para_sentences False (p # rest))"

text \<open>The body of the loop over \<^verbatim>\<open>paragraphs\<close>, for a paragraph that is not blank.\<close>

definition format_paragraph :: "string \<Rightarrow> string" where
  "format_paragraph paragraph =
     (let clean_paragraph = sub_newline_runs (strip paragraph);
          para_formatted = format_para_sentences True (re_split_sentences clean_paragraph);
          joined = concat para_formatted
      in if joined \<noteq> [] \<and> starts_lower joined then capitalize_first joined else joined)"

definition format_paragraphs :: "string \<Rightarrow> string" where
  "format_paragraphs formatted_content =
     join ''\<newline>\<newline>''
       (map format_paragraph
          (filter (\<lambda>p. strip p \<noteq> []) (py_split ''\<newline>\<newline>'' formatted_content)))"

text \<open>\<^verbatim>\<open>re.sub(pattern, replacement, s)\<close> for the pattern \<^verbatim>\<open>(?<![A-Za-z])\<close>\<open>pat\<close>, followed by
  \<^verbatim>\<open>(?![A-Za-z])\<close> when \<open>lookahead\<close> is set; \<open>prev\<close> tells whether the character before the
  position is a letter.\<close>

fun re_sub_word :: "string \<Rightarrow> bool \<Rightarrow> string \<Rightarrow> bool \<Rightarrow> string \<Rightarrow> string" where
  "re_sub_word pat lookahead repl prev [] = []"
| "re_sub_word pat lookahead repl prev (c # cs) =
     (if pat \<noteq> [] \<and> \<not> prev \<and> startswith (c # cs) pat
         \<and> (lookahead \<longrightarrow>
              \<not> (case drop (length pat) (c # cs) of [] \<Rightarrow> False | d # ds \<Rightarrow> is_letter d))
      then repl @ re_sub_word pat lookahead repl (is_letter (last pat)) (drop (length pat - 1) cs)
      else c # re_sub_word pat lookahead repl (is_letter c) cs)"

text \<open>\<^verbatim>\<open>s.capitalize()\<close>\<close>

definition py_capitalize :: "string \<Rightarrow> string" where
  "py_capitalize s = (case s of [] \<Rightarrow> [] | c # cs \<Rightarrow> upper_char c # map lower_char cs)"

definition proper_nouns :: "string list" where
  "proper_nouns = [''israel'', ''iran'', ''israeli'', ''iranian'', ''monday'', ''tuesday'',
                   ''wednesday'', ''thursday'', ''friday'', ''saturday'', ''sunday'']"

definition possessive_nouns :: "string list" where
  "possessive_nouns = [''israel'', ''iran'', ''israeli'', ''iranian'']"

definition fix_proper_nouns :: "string \<Rightarrow> string" where
  "fix_proper_nouns final_content =
     fold (\<lambda>proper_noun t. re_sub_word proper_noun True (py_capitalize proper_noun) False t)
       proper_nouns final_content"

definition fix_possessives :: "string \<Rightarrow> string" where
  "fix_possessives final_content =
     fold (\<lambda>proper_noun t.
             re_sub_word (proper_noun @ [CHR 0x27, CHR ''s'']) False
               (py_capitalize proper_noun @ [CHR 0x27, CHR ''s'']) False t)
       possessive_nouns final_content"

definition sources_block_marker :: string where
  "sources_block_marker = ''\<newline>\<newline>**Sources:**\<newline>''"

text \<open>The header and the content: the text up to and including the first blank line is
  the header when the text starts with \<^verbatim>\<open>**\<close>.\<close>

definition split_header :: "string \<Rightarrow> string \<times> string" where
  "split_header text =
     (if startswith text ''**'' \<and> contains text ''\<newline>\<newline>'' then
        (case py_split1 ''\<newline>\<newline>'' text of
           [a, b] \<Rightarrow> (a @ ''\<newline>\<newline>'', b)
         | _ \<Rightarrow> ([], text))
      else ([], text))"

text \<open>The content to process and the sources section, which is passed through.\<close>

definition split_sources :: "string \<Rightarrow> string \<times> string" where
  "split_sources content =
     (if contains content sources_block_marker then
        (case py_split1 sources_block_marker content of
           a # b # ps \<Rightarrow> (a, sources_block_marker @ b)
         | _ \<Rightarrow> (content, []))
      else (content, []))"

definition format_response_text :: "string \<Rightarrow> string" where
  "format_response_text text =
     (if text = [] then text
      else case split_header text of
        (header, content) \<Rightarrow>
          (case split_sources content of
             (processed_content, sources_section) \<Rightarrow>
               (let formatted_content = concat (format_sentences (re_split_sentences processed_content));
                    final_content = fix_possessives (fix_proper_nouns (format_paragraphs formatted_content))
                in header @ final_content @ sources_section)))"

subsection \<open>Evidence, collaborators and the state of the generator\<close>

text \<open>A web search result (a dict in the source); a field is \<open>None\<close> when the key is absent.\<close>

record web_item =
  wi_title :: "string option"
  wi_source :: "string option"
  wi_url :: "string option"
  wi_content :: "string option"

text \<open>The calls to collaborators, logged in the order they are made.\<close>

datatype call =
    WebSearch string int
  | LoadSummarizer
  | LoadModel
  | Generate string
  | Summarize string
  | Connect
  | Embed string
  | VectorSearch "real list" int
  | TextSearch string int

text \<open>
  The collaborators of one request:
  \<^item> \<open>web_scraper\<close>: \<^verbatim>\<open>get_web_scraper().search_disaster_info(query, max_results)\<close>;
  \<^item> \<open>embedder\<close>: \<^verbatim>\<open>generate_embedding(query)\<close>;
  \<^item> \<open>store\<close>: the vector store; \<open>connect_result\<close>: what \<^verbatim>\<open>db_conn.connect()\<close> does when called;
  \<^item> \<open>model_loads\<close>: whether \<^verbatim>\<open>_load_model\<close> succeeds; \<open>llm\<close>: tokenizer, \<^verbatim>\<open>model.generate\<close>
    and decoding, from the prompt to the decoded text;
  \<^item> \<open>summarizer_loads\<close>: whether \<^verbatim>\<open>_load_summarizer\<close> succeeds; \<open>t5_loads\<close>: whether the
    summarizer's own model loads; \<open>t5\<close>: the summarization model on a text with
    \<^verbatim>\<open>max_length\<close> and \<^verbatim>\<open>min_length\<close>.
\<close>

record collaborators =
  web_scraper :: "string \<Rightarrow> int \<Rightarrow> error + web_item list"
  embedder :: "string \<Rightarrow> error + real list"
  store :: db
  connect_result :: "error + bool"
  model_loads :: bool
  llm :: "string \<Rightarrow> error + string"
  summarizer_loads :: bool
  t5_loads :: bool
  t5 :: "string \<Rightarrow> nat \<Rightarrow> nat \<Rightarrow> error + string"

text \<open>The mutable state of \<^verbatim>\<open>LLMResponseGenerator\<close>, and the log of calls.\<close>

record session =
  model_loaded :: bool
  summarizer_loaded :: bool
  calls :: "call list"

definition log_call :: "call \<Rightarrow> session \<Rightarrow> session" where
  "log_call x st = st\<lparr>calls := calls st @ [x]\<rparr>"

definition load_model :: "collaborators \<Rightarrow> session \<Rightarrow> session" where
  "load_model c st =
     log_call LoadModel (if model_loads c then st\<lparr>model_loaded := True\<rparr> else st)"

definition load_summarizer :: "collaborators \<Rightarrow> session \<Rightarrow> session" where
  "load_summarizer c st =
     log_call LoadSummarizer (if summarizer_loads c then st\<lparr>summarizer_loaded := True\<rparr> else st)"

subsection \<open>The response composer (\<^verbatim>\<open>models/llm_response.py\<close>)\<close>

text \<open>\<^verbatim>\<open>s.split()\<close>: the maximal runs of characters that are not whitespace.\<close>

function py_words :: "string \<Rightarrow> string list" where
  "py_words s =
     (case dropWhile is_space s of
        [] \<Rightarrow> []
      | c # cs \<Rightarrow> (c # takeWhile (\<lambda>x. \<not> is_space x) cs)
                  # py_words (dropWhile (\<lambda>x. \<not> is_space x) cs))"
  by pat_completeness auto
termination
proof (relation "measure length")
  show "wf (measure length)" by simp
next
  fix s :: string and c cs
  assume a: "dropWhile is_space s = c # cs"
  have "length (dropWhile (\<lambda>x. \<not> is_space x) cs) \<le> length cs"
    by (rule length_dropWhile_le)
  moreover have "length (dropWhile is_space s) \<le> length s"
    by (rule length_dropWhile_le)
  ultimately show "(dropWhile (\<lambda>x. \<not> is_space x) cs, s) \<in> measure length"
    using a by simp
qed

declare py_words.simps [simp del]

text \<open>\<^verbatim>\<open>str(i)\<close> for a natural number.\<close>

definition digit_char :: "nat \<Rightarrow> char" where
  "digit_char d = ''0123456789'' ! d"

function py_str_nat :: "nat \<Rightarrow> string" where
  "py_str_nat n = (if n < 10 then [digit_char n] else py_str_nat (n div 10) @ [digit_char (n mod 10)])"
  by pat_completeness auto
termination
  by (relation "measure id") auto

declare py_str_nat.simps [simp del]

text \<open>\<^verbatim>\<open>k in d and d[k]\<close>: the key is present and its value is a non-empty string.\<close>

definition truthy :: "string option \<Rightarrow> bool" where
  "truthy v = (case v of Some x \<Rightarrow> x \<noteq> [] | None \<Rightarrow> False)"

text \<open>The loop body over \<^verbatim>\<open>web_data\<close> in \<^verbatim>\<open>_generate_web_based_response\<close>: the content is
  appended to \<^verbatim>\<open>all_content\<close>, a citation line to \<^verbatim>\<open>sources\<close>.\<close>

definition add_web_item :: "web_item \<Rightarrow> string \<times> string list \<Rightarrow> string \<times> string list" where
  "add_web_item data acc =
     (case acc of (all_content, srcs) \<Rightarrow>
        ((case wi_content data of
            Some content \<Rightarrow> if content \<noteq> [] then all_content @ content @ '' \<newline>\<newline>'' else all_content
          | None \<Rightarrow> all_content),
         (case wi_title data of
            Some title \<Rightarrow>
              (case wi_source data of
                 Some source \<Rightarrow> srcs @ [''- '' @ title @ '' ('' @ source @ '')'']
               | None \<Rightarrow> srcs)
          | None \<Rightarrow> srcs)))"

text \<open>The loop body over \<^verbatim>\<open>context_data[:3]\<close>: the text, else the summary.\<close>

definition event_content :: "event \<Rightarrow> string" where
  "event_content event =
     (if truthy (ev_text event) then (case ev_text event of Some t \<Rightarrow> t @ '' \<newline>\<newline>'' | None \<Rightarrow> [])
      else if truthy (ev_summary event)
        then (case ev_summary event of Some t \<Rightarrow> t @ '' \<newline>\<newline>'' | None \<Rightarrow> [])
      else [])"

definition add_db_event :: "event \<Rightarrow> string \<times> string list \<Rightarrow> string \<times> string list" where
  "add_db_event event acc =
     (case acc of (all_content, srcs) \<Rightarrow>
        (all_content @ event_content event,
         (case ev_title event of Some title \<Rightarrow> srcs @ [''- '' @ title] | None \<Rightarrow> srcs)))"

text \<open>\<^verbatim>\<open>all_content\<close> and \<^verbatim>\<open>sources\<close> after both loops.\<close>

definition gather_context :: "web_item list \<Rightarrow> event list \<Rightarrow> string \<times> string list" where
  "gather_context web_data context_data =
     fold add_db_event (take 3 context_data) (fold add_web_item web_data ([], []))"

definition web_prompt :: "string \<Rightarrow> string \<Rightarrow> string" where
  "web_prompt user_query all_content =
     ''\<newline>I need information about: '' @ user_query @
     ''\<newline>\<newline>Please provide a clear, comprehensive answer based only on the following information:\<newline>\<newline>'' @
     all_content @
     ''\<newline>\<newline>Summarize the most important points and focus specifically on answering the query. Make your response well-structured, factual, and concise. Use proper capitalization for sentences and ensure the text is professionally formatted.\<newline>''"

definition db_prompt :: "string \<Rightarrow> string \<Rightarrow> string" where
  "db_prompt user_query formatted_context =
     ''\<newline>I need information about: '' @ user_query @
     ''\<newline>\<newline>Based on the following crisis data, please provide a helpful, accurate, and concise answer:\<newline>\<newline>'' @
     formatted_context @
     ''\<newline>\<newline>Make your response well-structured, factual, and directly focused on answering the query. Ensure proper capitalization and formatting for a professional presentation.\<newline>''"

text \<open>``Remove the prompt part'': the echoed prompt is cut off and the rest stripped.\<close>

definition remove_prompt :: "string \<Rightarrow> string \<Rightarrow> string" where
  "remove_prompt prompt response_text =
     (if startswith response_text prompt then strip (drop (length prompt) response_text)
      else response_text)"

text \<open>The inner \<^verbatim>\<open>try\<close> around the language model: \<open>None\<close> when the model is not loaded or
  the generation raised.\<close>

definition llm_attempt :: "collaborators \<Rightarrow> string \<Rightarrow> session \<Rightarrow> string option \<times> session" where
  "llm_attempt c prompt st =
     (if model_loaded st then
        (case llm c prompt of
           Inr response_text \<Rightarrow> (Some (remove_prompt prompt response_text), log_call (Generate prompt) st)
         | Inl e \<Rightarrow> (None, log_call (Generate prompt) st))
      else (None, st))"

text \<open>\<^verbatim>\<open>Summarizer.summarize\<close> (\<^verbatim>\<open>models/summarization.py\<close>).\<close>

definition summarize :: "collaborators \<Rightarrow> string \<Rightarrow> nat \<Rightarrow> nat \<Rightarrow> error + string" where
  "summarize c text max_length min_length =
     (if \<not> t5_loads c then Inl Exception
      else if length (py_words text) < min_length then Inr text
      else t5 c text max_length min_length)"

text \<open>\<^verbatim>\<open>self.summarizer.summarize(text, max_length=300, min_length=100)\<close>; the attribute
  \<^verbatim>\<open>self.summarizer\<close> exists only once \<^verbatim>\<open>_load_summarizer\<close> has succeeded.\<close>

definition call_summarizer :: "collaborators \<Rightarrow> string \<Rightarrow> session \<Rightarrow> (error + string) \<times> session" where
  "call_summarizer c text st =
     (if summarizer_loaded st then (summarize c text 300 100, log_call (Summarize text) st)
      else (Inl Exception, st))"

definition information_header :: "string \<Rightarrow> string" where
  "information_header user_query = ''**Information about '' @ user_query @ ''**\<newline>\<newline>''"

text \<open>``Add sources if we have them''.\<close>

definition add_sources :: "string \<Rightarrow> string list \<Rightarrow> string" where
  "add_sources text srcs =
     (if srcs \<noteq> [] then text @ ''\<newline>\<newline>**Sources:**\<newline>'' @ join ''\<newline>'' srcs else text)"

definition truncate_words :: "string \<Rightarrow> string" where
  "truncate_words all_content =
     (let words = take 300 (py_words all_content);
          truncated_content = join '' '' words
      in if length words < length (py_words all_content) then truncated_content @ ''...''
         else truncated_content)"

text \<open>The second \<^verbatim>\<open>try\<close> of \<^verbatim>\<open>_generate_web_based_response\<close>, reached when the language model
  gave nothing.\<close>

definition summarizer_fallback ::
  "collaborators \<Rightarrow> session \<Rightarrow> string \<Rightarrow> string \<Rightarrow> string list \<Rightarrow> string \<times> session" where
  "summarizer_fallback c st user_query all_content srcs =
     (if length (py_words all_content) > 50 then
        (case call_summarizer c all_content st of
           (Inr summary, st') \<Rightarrow> (add_sources (information_header user_query @ summary) srcs, st')
         | (Inl e, st') \<Rightarrow> (information_header user_query @ truncate_words all_content, st'))
      else (information_header user_query @ strip all_content, st))"

definition generate_web_based_response ::
  "collaborators \<Rightarrow> session \<Rightarrow> string \<Rightarrow> web_item list \<Rightarrow> event list \<Rightarrow> string \<times> session" where
  "generate_web_based_response c st user_query web_data context_data =
     (let st1 = (if \<not> summarizer_loaded st then load_summarizer c st else st) in
      case gather_context web_data context_data of
        (all_content, srcs) \<Rightarrow>
          (let st2 = (if \<not> model_loaded st1 then load_model c st1 else st1) in
           case llm_attempt c (web_prompt user_query all_content) st2 of
             (Some response_text, st3) \<Rightarrow> (add_sources response_text srcs, st3)
           | (None, st3) \<Rightarrow> summarizer_fallback c st3 user_query all_content srcs))"

text \<open>\<^verbatim>\<open>if k in event and event[k]: item += f"Label: {event[k]}\n"\<close>\<close>

definition field_line :: "string \<Rightarrow> string option \<Rightarrow> string" where
  "field_line label v =
     (case v of Some x \<Rightarrow> if x \<noteq> [] then label @ x @ ''\<newline>'' else [] | None \<Rightarrow> [])"

text \<open>The lines for the nested \<^verbatim>\<open>data\<close> dict: every key but \<^verbatim>\<open>embedding\<close> with a non-empty
  value.\<close>

definition data_lines :: "(string \<times> string) list option \<Rightarrow> string" where
  "data_lines d =
     (case d of
        None \<Rightarrow> []
      | Some kvs \<Rightarrow>
          concat (map (\<lambda>(key, v). if key \<noteq> ''embedding'' \<and> v \<noteq> [] then key @ '': '' @ v @ ''\<newline>'' else [])
                    kvs))"

text \<open>One item of \<^verbatim>\<open>_format_context\<close>; \<open>i\<close> is the index \<^verbatim>\<open>enumerate\<close> gives, from 1.\<close>

definition format_context_item :: "nat \<Rightarrow> event \<Rightarrow> string" where
  "format_context_item i event =
     ''Event '' @ py_str_nat i @ '':\<newline>'' @
     field_line ''Title: '' (ev_title event) @
     (if truthy (ev_event_type event) then field_line ''Type: '' (ev_event_type event)
      else field_line ''Type: '' (ev_category event)) @
     (let location_info =
            (case ev_country event of Some x \<Rightarrow> if x \<noteq> [] then [x] else [] | None \<Rightarrow> []) @
            (case ev_location event of Some x \<Rightarrow> if x \<noteq> [] then [x] else [] | None \<Rightarrow> [])
      in if location_info \<noteq> [] then ''Location: '' @ join '', '' location_info @ ''\<newline>'' else []) @
     field_line ''Date: '' (ev_date event) @
     (if truthy (ev_summary event) then field_line ''Summary: '' (ev_summary event)
      else field_line ''Information: '' (ev_text event)) @
     field_line ''Casualties: '' (ev_casualties event) @
     field_line ''Impacts: '' (ev_impacts event) @
     data_lines (ev_data event)"

fun format_context_items :: "nat \<Rightarrow> event list \<Rightarrow> string list" where
  "format_context_items i [] = []"
| "format_context_items i (event # rest) =
     format_context_item i event # format_context_items (Suc i) rest"

definition format_context :: "event list \<Rightarrow> string" where
  "format_context context_data = join ''\<newline>'' (format_context_items 1 context_data)"

text \<open>The structured response of \<^verbatim>\<open>_generate_db_based_response\<close>, from the first three events.\<close>

definition structured_event :: "nat \<Rightarrow> event \<Rightarrow> string" where
  "structured_event i event =
     ''**Event '' @ py_str_nat i @ '': '' @
       (case ev_title event of Some t \<Rightarrow> t | None \<Rightarrow> ''Unnamed event'') @ ''**\<newline>'' @
     field_line ''Date: '' (ev_date event) @
     field_line ''Location: '' (ev_location event) @
     (if truthy (ev_summary event) then field_line ''Summary: '' (ev_summary event)
      else (case ev_text event of
              None \<Rightarrow> []
            | Some t \<Rightarrow>
                if t \<noteq> [] then
                  ''Information: '' @
                  (if length (py_words t) > 100 then join '' '' (take 100 (py_words t)) @ ''...'' else t) @
                  ''\<newline>''
                else [])) @
     ''\<newline>''"

fun structured_events :: "nat \<Rightarrow> event list \<Rightarrow> string" where
  "structured_events i [] = []"
| "structured_events i (event # rest) = structured_event i event @ structured_events (Suc i) rest"

definition structured_response :: "string \<Rightarrow> event list \<Rightarrow> string" where
  "structured_response user_query context_data =
     information_header user_query @ structured_events 1 (take 3 context_data)"

text \<open>The response of the \<^verbatim>\<open>except\<close> branch: the titles of the first five events.\<close>

definition simple_event :: "nat \<Rightarrow> event \<Rightarrow> string" where
  "simple_event i event =
     py_str_nat i @ ''. '' @
     (case ev_title event of Some t \<Rightarrow> t | None \<Rightarrow> ''Event '' @ py_str_nat i) @
     (case ev_date event of Some d \<Rightarrow> if d \<noteq> [] then '' ('' @ d @ '')'' else [] | None \<Rightarrow> []) @
     ''\<newline>''"

fun simple_events :: "nat \<Rightarrow> event list \<Rightarrow> string" where
  "simple_events i [] = []"
| "simple_events i (event # rest) = simple_event i event @ simple_events (Suc i) rest"

definition simple_response :: "string \<Rightarrow> event list \<Rightarrow> string" where
  "simple_response user_query context_data =
     ''I found the following information about '' @ [CHR 0x27] @ user_query @ [CHR 0x27] @
     '':\<newline>\<newline>'' @ simple_events 1 (take 5 context_data)"

definition generate_db_based_response ::
  "collaborators \<Rightarrow> session \<Rightarrow> string \<Rightarrow> event list \<Rightarrow> string \<times> session" where
  "generate_db_based_response c st user_query context_data =
     (let formatted_context = format_context context_data;
          st1 = (if \<not> model_loaded st then load_model c st else st) in
      case llm_attempt c (db_prompt user_query formatted_context) st1 of
        (Some response_text, st2) \<Rightarrow> (response_text, st2)
      | (None, st2) \<Rightarrow>
          (let all_text = fold (\<lambda>event all_text. all_text @ event_content event) context_data [] in
           if all_text \<noteq> [] \<and> length (py_words all_text) > 30 then
             (let st3 = (if \<not> summarizer_loaded st2 then load_summarizer c st2 else st2) in
              if summarizer_loaded st3 then
                (case call_summarizer c all_text st3 of
                   (Inr summary, st4) \<Rightarrow> (information_header user_query @ summary, st4)
                 | (Inl e, st4) \<Rightarrow> (simple_response user_query context_data, st4))
              else (structured_response user_query context_data, st3))
           else (structured_response user_query context_data, st2)))"

definition no_information_message :: "string \<Rightarrow> string" where
  "no_information_message user_query =
     ''I couldn'' @ [CHR 0x27] @ ''t find any information about '' @ [CHR 0x27] @ user_query @ [CHR 0x27] @
     ''. Please try a different query or check your internet connection.''"

text \<open>\<^verbatim>\<open>generate_response\<close> once the data is known not to be all missing: the web data first,
  the database data otherwise.\<close>

definition respond_with_data ::
  "collaborators \<Rightarrow> session \<Rightarrow> string \<Rightarrow> event list \<Rightarrow> web_item list \<Rightarrow> string \<times> session" where
  "respond_with_data c st user_query context_data web_data =
     (if web_data \<noteq> [] \<and> length web_data > 0 then
        (case generate_web_based_response c st user_query web_data context_data of
           (resp, st') \<Rightarrow> (format_response_text resp, st'))
      else if context_data \<noteq> [] \<and> length context_data > 0 then
        (case generate_db_based_response c st user_query context_data of
           (resp, st') \<Rightarrow> (format_response_text resp, st'))
      else (''I couldn'' @ [CHR 0x27] @ ''t find any information about '' @ [CHR 0x27] @ user_query @
            [CHR 0x27] @ ''. Please try a different query.'', st))"

definition generate_response ::
  "collaborators \<Rightarrow> session \<Rightarrow> string \<Rightarrow> event list \<Rightarrow> web_item list \<Rightarrow> string \<times> session" where
  "generate_response c st user_query context_data web_data =
     (if context_data = [] \<and> web_data = [] then
        (let st1 = log_call (WebSearch user_query 5) st;
             web_data' = (case web_scraper c user_query 5 of Inr found \<Rightarrow> found | Inl e \<Rightarrow> web_data)
         in if context_data = [] \<and> (web_data' = [] \<or> length web_data' = 0)
            then (no_information_message user_query, st1)
            else respond_with_data c st1 user_query context_data web_data')
      else respond_with_data c st user_query context_data web_data)"

definition search_error_message :: "string \<Rightarrow> string" where
  "search_error_message user_query =
     ''I encountered an error while searching for information about '' @ [CHR 0x27] @ user_query @
     [CHR 0x27] @ ''. Please try again with a different query.''"

text \<open>\<^verbatim>\<open>find_and_respond\<close>: the result is \<open>Inl\<close> if an exception leaves the function.\<close>

definition find_and_respond ::
  "collaborators \<Rightarrow> session \<Rightarrow> string \<Rightarrow> int \<Rightarrow> (error + string) \<times> session" where
  "find_and_respond c st user_query max_results =
     (let st1 = log_call (WebSearch user_query 3) st;
          web_data = (case web_scraper c user_query 3 of Inr found \<Rightarrow> found | Inl e \<Rightarrow> []);
          st2 = log_call (Embed user_query) st1 in
      case embedder c user_query of
        Inl e \<Rightarrow> (Inr (search_error_message user_query), st2)
      | Inr query_embedding \<Rightarrow>
          (let st3 = log_call (VectorSearch query_embedding max_results) st2;
               results = search_by_vector (store c) query_embedding max_results;
               st4 = (if results = [] then log_call (TextSearch user_query max_results) st3 else st3);
               results' = (if results = []
                           then search_by_text (store c) (embedder c) user_query max_results
                           else results)
           in case generate_response c st4 user_query results' web_data of
                (resp, st5) \<Rightarrow> (Inr resp, st5)))"

subsection \<open>The handlers (\<^verbatim>\<open>api/app.py\<close>)\<close>










text \<open>The handler \<^verbatim>\<open>crisis_query\<close>: the answer of \<^verbatim>\<open>find_and_respond\<close>, its sources block
  parsed; an exception becomes an HTTP error 500, here \<open>Inl\<close>.\<close>

definition crisis_query ::
  "collaborators \<Rightarrow> session \<Rightarrow> string \<Rightarrow> int \<Rightarrow> (error + crisis_response) \<times> session" where
  "crisis_query c st q max_results =
     (case find_and_respond c st q max_results of
        (Inl e, st') \<Rightarrow> (Inl e, st')
      | (Inr resp, st') \<Rightarrow> (Inr (extract_sources resp), st'))"

subsection \<open>Vocabulary of the properties of the composer and the handlers\<close>

text \<open>What one web item contributes to the context, and the citations the composer lists:
  a web item with a title and a source, a database item with a title (it has no source, and
  the extractor reads \<^verbatim>\<open>Unknown\<close>).\<close>

definition web_content :: "web_item \<Rightarrow> string" where
  "web_content data =
     (case wi_content data of
        Some content \<Rightarrow> if content \<noteq> [] then content @ '' \<newline>\<newline>'' else []
      | None \<Rightarrow> [])"

definition web_citation :: "web_item \<Rightarrow> (string \<times> string) list" where
  "web_citation data =
     (case wi_title data of
        None \<Rightarrow> []
      | Some title \<Rightarrow> (case wi_source data of None \<Rightarrow> [] | Some source \<Rightarrow> [(title, source)]))"

definition db_citation :: "event \<Rightarrow> (string \<times> string) list" where
  "db_citation event = (case ev_title event of None \<Rightarrow> [] | Some title \<Rightarrow> [(title, ''Unknown'')])"




text \<open>The calls made between two states of a request.\<close>

definition new_calls :: "session \<Rightarrow> session \<Rightarrow> call list" where
  "new_calls st st' = drop (length (calls st)) (calls st')"

text \<open>From \<open>st\<close> to \<open>st'\<close> the log grew, by calls of the set \<open>A\<close> only.\<close>

definition extends_by :: "call set \<Rightarrow> session \<Rightarrow> session \<Rightarrow> bool" where
  "extends_by A st st' = (\<exists>new. calls st' = calls st @ new \<and> set new \<subseteq> A)"

subsection \<open>Vocabulary of the properties of the normalizer\<close>

definition is_digit :: "char \<Rightarrow> bool" where
  "is_digit c = (c \<in> set ''0123456789'')"

definition is_alnum :: "char \<Rightarrow> bool" where
  "is_alnum c = (is_letter c \<or> is_digit c)"

text \<open>The alphanumeric word tokens of a text, in order, each in lower case: the maximal runs
  of letters and digits.  \<open>w\<close> is the token being read.\<close>

fun tokens_from :: "string \<Rightarrow> string \<Rightarrow> string list" where
  "tokens_from w [] = (if w = [] then [] else [w])"
| "tokens_from w (c # cs) =
     (if is_alnum c then tokens_from (w @ [lower_char c]) cs
      else (if w = [] then [] else [w]) @ tokens_from [] cs)"

definition word_tokens :: "string \<Rightarrow> string list" where
  "word_tokens s = tokens_from [] s"










subsection \<open>Example data\<close>

text \<open>A database event with a title and a text, a web item with a title, a source and a
  content, collaborators that all fail, and a fresh generator.\<close>

definition example_event :: "string \<Rightarrow> string \<Rightarrow> event" where
  "example_event title text =
     \<lparr>ev_id = IdStr ''65f0'', ev_title = Some title, ev_text = Some text, ev_summary = None,
      ev_date = None, ev_location = None, ev_country = None, ev_event_type = None,
      ev_category = None, ev_casualties = None, ev_impacts = None, ev_data = None\<rparr>"

definition example_web_item :: "string \<Rightarrow> string \<Rightarrow> string \<Rightarrow> web_item" where
  "example_web_item title source content =
     \<lparr>wi_title = Some title, wi_source = Some source, wi_url = Some ''https://example.org'',
      wi_content = Some content\<rparr>"



section \<open>Theorems\<close>

subsection \<open>The vector store\<close>

lemma find_limit_pos:
  "0 < limit \<Longrightarrow> \<not> find_raises d \<Longrightarrow> collection d = Some docs \<Longrightarrow>
   find_limit d limit = Inr (take (nat limit) docs)"
  by (simp add: find_limit_def mongo_limit_def)

lemma vector_or_find_fallback:
  "knn_search d qv limit = Inr [] \<or> knn_search d qv limit = Inl e \<Longrightarrow>
   vector_or_find d qv limit = find_limit d limit"
  by (auto simp: vector_or_find_def split: sum.splits)

lemma vector_or_find_empty:
  assumes "vector_or_find d qv limit = Inr []"
  shows "find_limit d limit = Inr []"
  using assms by (auto simp: vector_or_find_def split: sum.splits if_splits)

lemma vector_or_find_error:
  assumes "vector_or_find d qv limit = Inl e"
  shows "find_limit d limit = Inl e"
  using assms by (auto simp: vector_or_find_def split: sum.splits if_splits)

text \<open>
  Claim C9.  Whenever the embedding of the query is produced, \<^verbatim>\<open>search_by_text(query, limit)\<close>
  returns exactly what \<^verbatim>\<open>search_by_vector(embed(query), limit)\<close> returns: the text search is
  the embedding search, not a literal text match.
\<close>

theorem search_by_text_is_vector_search:
  assumes "generate_embedding query = Inr v"
  shows "search_by_text d generate_embedding query limit = search_by_vector d v limit"
  using assms by (simp add: search_by_text_def search_by_vector_def)

theorem search_by_text_is_vector_search_witness:
  "search_by_text
     \<lparr>connected = True, collection = Some [], knn_search = (\<lambda>v k. Inr []), find_raises = False\<rparr>
     (\<lambda>q. Inr [1, 2]) ''flood'' 5
   = search_by_vector
     \<lparr>connected = True, collection = Some [], knn_search = (\<lambda>v k. Inr []), find_raises = False\<rparr>
     [1, 2] 5"
  by (rule search_by_text_is_vector_search) simp

text \<open>
  Claim C10.  For a positive \<open>limit\<close>: when the index search returns nothing or raises (and the
  plain \<^verbatim>\<open>find\<close> works), \<^verbatim>\<open>search_by_vector\<close> returns the first \<open>limit\<close> documents of the
  collection in natural order (their ids as strings), not an empty list; and it returns an
  empty list only when the database is unavailable, the collection is empty, or the plain
  \<^verbatim>\<open>find\<close> raises.  So a caller that falls back to the text search on an empty result does
  so only then.
\<close>

theorem search_by_vector_falls_back_to_find:
  assumes "0 < limit"
  shows "(is_db_available d \<and> \<not> find_raises d \<and> collection d = Some docs \<and>
          (knn_search d (resize_vector qv) limit = Inr [] \<or>
           knn_search d (resize_vector qv) limit = Inl e)
          \<longrightarrow> search_by_vector d qv limit = map stringify_id (take (nat limit) docs))
       \<and> (search_by_vector d qv limit = []
          \<longrightarrow> \<not> is_db_available d \<or> collection d = Some [] \<or> find_raises d)"
proof (intro conjI impI)
  assume a: "is_db_available d \<and> \<not> find_raises d \<and> collection d = Some docs \<and>
          (knn_search d (resize_vector qv) limit = Inr [] \<or>
           knn_search d (resize_vector qv) limit = Inl e)"
  then have "vector_or_find d (resize_vector qv) limit = find_limit d limit"
    using vector_or_find_fallback by blast
  moreover have "find_limit d limit = Inr (take (nat limit) docs)"
    using a assms by (simp add: find_limit_pos)
  ultimately show "search_by_vector d qv limit = map stringify_id (take (nat limit) docs)"
    using a by (simp add: search_by_vector_def)
next
  assume e: "search_by_vector d qv limit = []"
  show "\<not> is_db_available d \<or> collection d = Some [] \<or> find_raises d"
  proof (cases "is_db_available d")
    case False
    then show ?thesis by simp
  next
    case True
    then obtain docs where docs: "collection d = Some docs"
      by (auto simp: is_db_available_def)
    show ?thesis
    proof (cases "vector_or_find d (resize_vector qv) limit")
      case (Inl x)
      then have "find_limit d limit = Inl x" by (rule vector_or_find_error)
      then have "find_raises d"
        using docs by (simp add: find_limit_def split: if_splits)
      then show ?thesis by simp
    next
      case (Inr results)
      with e True have "results = []" by (simp add: search_by_vector_def)
      with Inr have "find_limit d limit = Inr []" by (simp add: vector_or_find_empty)
      then have "find_raises d \<or> take (nat limit) docs = []"
        using docs assms by (auto simp: find_limit_def mongo_limit_def split: if_splits)
      then show ?thesis using docs assms by auto
    qed
  qed
qed

theorem search_by_vector_falls_back_to_find_witness:
  "(0::int) < 1 \<and>
   search_by_vector
     \<lparr>connected = True,
      collection = Some [
        \<lparr>ev_id = ObjectId ''a1'', ev_title = Some ''Flood'', ev_text = None, ev_summary = None,
         ev_date = None, ev_location = None, ev_country = None, ev_event_type = None,
         ev_category = None, ev_casualties = None, ev_impacts = None, ev_data = None\<rparr>,
        \<lparr>ev_id = ObjectId ''b2'', ev_title = Some ''Quake'', ev_text = None, ev_summary = None,
         ev_date = None, ev_location = None, ev_country = None, ev_event_type = None,
         ev_category = None, ev_casualties = None, ev_impacts = None, ev_data = None\<rparr>],
      knn_search = (\<lambda>v k. Inr []), find_raises = False\<rparr> [] 1
   = [\<lparr>ev_id = IdStr ''a1'', ev_title = Some ''Flood'', ev_text = None, ev_summary = None,
         ev_date = None, ev_location = None, ev_country = None, ev_event_type = None,
         ev_category = None, ev_casualties = None, ev_impacts = None, ev_data = None\<rparr>]"
proof -
  have pos: "(0::int) < 1" by simp
  show ?thesis
    using search_by_vector_falls_back_to_find [OF pos, THEN conjunct1, rule_format,
      where d = "\<lparr>connected = True,
      collection = Some [
        \<lparr>ev_id = ObjectId ''a1'', ev_title = Some ''Flood'', ev_text = None, ev_summary = None,
         ev_date = None, ev_location = None, ev_country = None, ev_event_type = None,
         ev_category = None, ev_casualties = None, ev_impacts = None, ev_data = None\<rparr>,
        \<lparr>ev_id = ObjectId ''b2'', ev_title = Some ''Quake'', ev_text = None, ev_summary = None,
         ev_date = None, ev_location = None, ev_country = None, ev_event_type = None,
         ev_category = None, ev_casualties = None, ev_impacts = None, ev_data = None\<rparr>],
      knn_search = (\<lambda>v k. Inr []), find_raises = False\<rparr>" and qv = "[]" and
      docs = "[
        \<lparr>ev_id = ObjectId ''a1'', ev_title = Some ''Flood'', ev_text = None, ev_summary = None,
         ev_date = None, ev_location = None, ev_country = None, ev_event_type = None,
         ev_category = None, ev_casualties = None, ev_impacts = None, ev_data = None\<rparr>,
        \<lparr>ev_id = ObjectId ''b2'', ev_title = Some ''Quake'', ev_text = None, ev_summary = None,
         ev_date = None, ev_location = None, ev_country = None, ev_event_type = None,
         ev_category = None, ev_casualties = None, ev_impacts = None, ev_data = None\<rparr>]"]
    by (simp add: is_db_available_def stringify_id_def)
qed

subsection \<open>The normalizer keeps every word\<close>


lemma space_not_alnum: "is_space c \<Longrightarrow> \<not> is_alnum c"
  by (auto simp: is_space_def is_alnum_def is_letter_def is_lower_def is_upper_def is_digit_def lowers_def uppers_def)

lemma term_not_alnum: "is_term c \<Longrightarrow> \<not> is_alnum c"
  by (auto simp: is_term_def is_alnum_def is_letter_def is_lower_def is_upper_def is_digit_def lowers_def uppers_def)

lemma lower_upper_char: "lower_char (upper_char c) = lower_char c"
  by (auto simp: lower_char_def upper_char_def lowers_def uppers_def split: option.splits if_splits)

lemma alnum_lower_char: "is_alnum (lower_char c) = is_alnum c"
  by (auto simp: lower_char_def is_alnum_def is_letter_def is_lower_def is_upper_def is_digit_def lowers_def uppers_def split: option.splits if_splits)

lemma lower_lower_char: "lower_char (lower_char c) = lower_char c"
  by (auto simp: lower_char_def lowers_def uppers_def split: option.splits if_splits)

lemma tokens_from_sep:
  "\<not> is_alnum c \<Longrightarrow> tokens_from w (a @ c # b) = tokens_from w a @ tokens_from [] b"
  by (induction a arbitrary: w) auto

lemma tokens_from_ci:
  "map lower_char x = map lower_char y \<Longrightarrow> tokens_from w x = tokens_from w y"
proof (induction x arbitrary: y w)
  case Nil
  then show ?case by simp
next
  case (Cons c cs)
  then obtain d ds where y: "y = d # ds" "lower_char c = lower_char d" "map lower_char cs = map lower_char ds"
    by (cases y) auto
  have "is_alnum c = is_alnum d"
    using y(2) alnum_lower_char by metis
  with y Cons.IH [OF y(3)] show ?case by simp
qed

lemma tokens_from_blank:
  "\<forall>c \<in> set ws. \<not> is_alnum c \<Longrightarrow> ws \<noteq> [] \<Longrightarrow>
   tokens_from w (ws @ b) = (if w = [] then [] else [w]) @ tokens_from [] b"
proof (induction ws arbitrary: w)
  case Nil
  then show ?case by simp
next
  case (Cons c cs)
  then show ?case by (cases "cs = []") auto
qed

lemma tokens_from_blank0:
  "\<forall>c \<in> set ws. \<not> is_alnum c \<Longrightarrow> tokens_from [] (ws @ b) = tokens_from [] b"
  by (cases "ws = []") (simp_all add: tokens_from_blank)

lemma tokens_from_trailing:
  "\<forall>c \<in> set ws. \<not> is_alnum c \<Longrightarrow> tokens_from w (a @ ws) = tokens_from w a"
proof (cases ws)
  case Nil
  then show ?thesis by simp
next
  case (Cons c cs)
  assume a: "\<forall>c \<in> set ws. \<not> is_alnum c"
  with Cons have "tokens_from w (a @ c # cs) = tokens_from w a @ tokens_from [] cs"
    by (simp add: tokens_from_sep)
  moreover have "tokens_from [] cs = []"
    using tokens_from_blank0 [of cs "[]"] a Cons by simp
  ultimately show ?thesis using Cons by simp
qed

lemma capitalize_first_ci: "map lower_char (capitalize_first s) = map lower_char s"
  by (cases s) (simp_all add: capitalize_first_def lower_upper_char)

lemma strip_blank: "strip s = [] \<Longrightarrow> \<forall>c \<in> set s. is_space c"
proof -
  assume "strip s = []"
  then have "dropWhile is_space (rev (dropWhile is_space s)) = []"
    by (simp add: strip_def)
  then have "\<forall>c \<in> set (dropWhile is_space s). is_space c"
    by (simp add: dropWhile_eq_Nil_conv)
  then have "dropWhile is_space s = []"
    by (metis dropWhile_eq_Nil_conv hd_dropWhile list.set_sel(1))
  then show ?thesis by (simp add: dropWhile_eq_Nil_conv)
qed

lemma tokens_standalone:
  "tokens_from w (concat (standalone cap s) @ b) = tokens_from w (s @ b) \<or> 
   (strip s = [] \<and> concat (standalone cap s) = [])"
  by (auto simp: standalone_def intro!: tokens_from_ci simp: capitalize_first_ci)

lemma tokens_standalone_end:
  "tokens_from w (concat (standalone cap s)) = tokens_from w s"
proof (cases "strip s = []")
  case True
  then have "\<forall>c \<in> set s. \<not> is_alnum c"
    using strip_blank space_not_alnum by blast
  then have "tokens_from w ([] @ s) = tokens_from w []"
    by (rule tokens_from_trailing)
  with True show ?thesis by (simp add: standalone_def)
next
  case False
  then show ?thesis
    by (auto simp: standalone_def capitalize_first_ci intro!: tokens_from_ci)
qed

lemma matches_terminator_sep:
  "is_term c \<Longrightarrow> (case cs of [] \<Rightarrow> False | d # ds \<Rightarrow> is_space d) \<Longrightarrow>
   matches_terminator (c # takeWhile is_space cs)"
  by (cases cs) (auto simp: matches_terminator_def)

lemma takeWhile_space_not_alnum: "\<forall>c \<in> set (takeWhile is_space cs). \<not> is_alnum c"
  by (metis set_takeWhileD space_not_alnum)

lemma tokens_after_terminator:
  assumes "is_term c"
  shows "tokens_from w (acc @ c # cs) = tokens_from w acc @ tokens_from [] (dropWhile is_space cs)"
proof -
  have "tokens_from w (acc @ c # cs) = tokens_from w acc @ tokens_from [] cs"
    using assms term_not_alnum by (simp add: tokens_from_sep)
  moreover have "tokens_from [] (takeWhile is_space cs @ dropWhile is_space cs)
               = tokens_from [] (dropWhile is_space cs)"
    using takeWhile_space_not_alnum by (rule tokens_from_blank0)
  ultimately show ?thesis by simp
qed

lemma tokens_sentence_piece:
  assumes "map lower_char x = map lower_char (acc @ c # tw)" "is_term c" "\<forall>c \<in> set tw. is_space c"
  shows "tokens_from w (x @ y) = tokens_from w acc @ tokens_from [] y"
proof -
  have "map lower_char (x @ y) = map lower_char (acc @ c # (tw @ y))"
    using assms(1) by simp
  then have "tokens_from w (x @ y) = tokens_from w (acc @ c # (tw @ y))"
    by (rule tokens_from_ci)
  also have "\<dots> = tokens_from w acc @ tokens_from [] (tw @ y)"
    using assms(2) term_not_alnum by (simp add: tokens_from_sep)
  also have "tokens_from [] (tw @ y) = tokens_from [] y"
    using assms(3) space_not_alnum by (intro tokens_from_blank0) blast
  finally show ?thesis .
qed

lemma tokens_format_sentences:
  "tokens_from w (concat (format_sentences (re_split_acc acc s))) = tokens_from w (acc @ s)"
proof (induction acc s arbitrary: w rule: re_split_acc.induct)
  case (1 acc)
  show ?case by (simp add: tokens_standalone_end)
next
  case (2 acc c cs)
  show ?case
  proof (cases "is_term c \<and> (case cs of [] \<Rightarrow> False | d # ds \<Rightarrow> is_space d)")
    case True
    let ?tw = "takeWhile is_space cs"
    let ?rest = "concat (format_sentences (re_split_acc [] (dropWhile is_space cs)))"
    from True have mt: "matches_terminator (c # ?tw)"
      by (simp add: matches_terminator_sep)
    obtain x where x: "format_sentences (re_split_acc acc (c # cs))
                        = x # format_sentences (re_split_acc [] (dropWhile is_space cs))"
      and xci: "map lower_char x = map lower_char (acc @ c # ?tw)"
      using True mt by (auto simp: Let_def capitalize_first_ci)
    have "tokens_from w (x @ ?rest) = tokens_from w acc @ tokens_from [] ?rest"
      using xci True by (intro tokens_sentence_piece [where c = c and tw = ?tw]) (auto dest: set_takeWhileD)
    also have "tokens_from [] ?rest = tokens_from [] (dropWhile is_space cs)"
      using "2.IH"(1) [OF True] by simp
    finally show ?thesis
      using x True by (simp add: tokens_after_terminator)
  next
    case False
    then show ?thesis using "2.IH"(2) [OF False] by auto
  qed
qed

lemma tokens_format_para_sentences:
  "tokens_from w (concat (format_para_sentences first (re_split_acc acc s))) = tokens_from w (acc @ s)"
proof (induction acc s arbitrary: w first rule: re_split_acc.induct)
  case (1 acc)
  show ?case by (simp add: tokens_standalone_end)
next
  case (2 acc c cs)
  show ?case
  proof (cases "is_term c \<and> (case cs of [] \<Rightarrow> False | d # ds \<Rightarrow> is_space d)")
    case True
    let ?tw = "takeWhile is_space cs"
    let ?rest = "concat (format_para_sentences False (re_split_acc [] (dropWhile is_space cs)))"
    from True have mt: "matches_terminator (c # ?tw)"
      by (simp add: matches_terminator_sep)
    obtain x where x: "format_para_sentences first (re_split_acc acc (c # cs))
                        = x # format_para_sentences False (re_split_acc [] (dropWhile is_space cs))"
      and xci: "map lower_char x = map lower_char (acc @ c # ?tw)"
      using True mt by (auto simp: Let_def capitalize_first_ci)
    have "tokens_from w (x @ ?rest) = tokens_from w acc @ tokens_from [] ?rest"
      using xci True by (intro tokens_sentence_piece [where c = c and tw = ?tw]) (auto dest: set_takeWhileD)
    also have "tokens_from [] ?rest = tokens_from [] (dropWhile is_space cs)"
      using "2.IH"(1) [OF True] by simp
    finally show ?thesis
      using x True by (simp add: tokens_after_terminator)
  next
    case False
    then show ?thesis using "2.IH"(2) [OF False] by auto
  qed
qed

lemma space_blank: "is_space (CHR '' '')"
  by (simp add: is_space_def)

lemma space_newline: "is_space (CHR ''\<newline>'')"
  by (simp add: is_space_def)

lemma tokens_sub_newline_runs:
  "tokens_from w (sub_newline_runs s) = tokens_from w s"
proof (induction s arbitrary: w rule: sub_newline_runs.induct)
  case 1
  show ?case by simp
next
  case (2 c cs)
  show ?case
  proof (cases "is_space c")
    case True
    let ?run = "takeWhile is_space (c # cs)"
    let ?r = "if CHR ''\<newline>'' \<in> set ?run then '' '' else ?run"
    have r: "\<forall>x \<in> set ?r. \<not> is_alnum x" "?r \<noteq> []"
      using True space_blank space_not_alnum takeWhile_space_not_alnum [of "c # cs"]
      by (auto split: if_splits)
    have "tokens_from w (?r @ sub_newline_runs (dropWhile is_space cs))
          = (if w = [] then [] else [w]) @ tokens_from [] (sub_newline_runs (dropWhile is_space cs))"
      using r by (rule tokens_from_blank)
    also have "\<dots> = (if w = [] then [] else [w]) @ tokens_from [] (dropWhile is_space cs)"
      using "2.IH"(1) [OF True] by simp
    also have "\<dots> = tokens_from w ((c # takeWhile is_space cs) @ dropWhile is_space cs)"
      using True space_not_alnum takeWhile_space_not_alnum [of cs]
      by (intro tokens_from_blank [symmetric]) auto
    finally show ?thesis using True by simp
  next
    case False
    then show ?thesis using "2.IH"(2) [OF False] by simp
  qed
qed

lemma strip_decomp:
  "\<exists>lead trail. s = lead @ strip s @ trail \<and> (\<forall>c \<in> set lead. is_space c) \<and> (\<forall>c \<in> set trail. is_space c)"
proof -
  let ?t = "dropWhile is_space s"
  have "rev ?t = takeWhile is_space (rev ?t) @ dropWhile is_space (rev ?t)"
    by simp
  then have "?t = strip s @ rev (takeWhile is_space (rev ?t))"
    unfolding strip_def by (metis rev_append rev_rev_ident)
  then have "s = takeWhile is_space s @ strip s @ rev (takeWhile is_space (rev ?t))"
    by (metis takeWhile_dropWhile_id)
  moreover have "\<forall>c \<in> set (takeWhile is_space s). is_space c"
    by (auto dest: set_takeWhileD)
  moreover have "\<forall>c \<in> set (rev (takeWhile is_space (rev ?t))). is_space c"
    by (auto dest: set_takeWhileD)
  ultimately show ?thesis by blast
qed

lemma tokens_strip: "tokens_from [] (strip s) = tokens_from [] s"
proof -
  obtain lead trail where d: "s = lead @ strip s @ trail"
    "\<forall>c \<in> set lead. is_space c" "\<forall>c \<in> set trail. is_space c"
    using strip_decomp by blast
  have "tokens_from [] (lead @ (strip s @ trail)) = tokens_from [] (strip s @ trail)"
    using d(2) space_not_alnum by (intro tokens_from_blank0) blast
  also have "\<dots> = tokens_from [] (strip s)"
    using d(3) space_not_alnum by (intro tokens_from_trailing) blast
  finally show ?thesis using d(1) by simp
qed

lemma tokens_format_paragraph: "tokens_from [] (format_paragraph p) = tokens_from [] p"
proof -
  let ?j = "concat (format_para_sentences True (re_split_sentences (sub_newline_runs (strip p))))"
  have "map lower_char (format_paragraph p) = map lower_char ?j"
    by (simp add: format_paragraph_def Let_def capitalize_first_ci)
  then have "tokens_from [] (format_paragraph p) = tokens_from [] ?j"
    by (rule tokens_from_ci)
  also have "\<dots> = tokens_from [] (sub_newline_runs (strip p))"
    using tokens_format_para_sentences [of "[]" True "[]"] by (simp add: re_split_sentences_def)
  finally show ?thesis by (simp add: tokens_sub_newline_runs tokens_strip)
qed

lemma startswith_append: "startswith s p \<Longrightarrow> s = p @ drop (length p) s"
  by (induction s p rule: startswith.induct) auto

lemma break_at_Some: "break_at sep s = Some (a, b) \<Longrightarrow> s = a @ sep @ b"
proof (induction s arbitrary: a)
  case Nil
  then show ?case by (simp split: if_splits)
next
  case (Cons c cs)
  show ?case
  proof (cases "startswith (c # cs) sep")
    case True
    with Cons.prems startswith_append [OF True] show ?thesis by simp
  next
    case False
    with Cons.prems obtain a' where "break_at sep cs = Some (a', b)" "a = c # a'"
      by auto
    with Cons.IH show ?thesis by auto
  qed
qed

lemma py_split_nonempty: "py_split sep s \<noteq> []"
  by (subst py_split.simps) (auto split: option.splits)

lemma join_Cons: "xs \<noteq> [] \<Longrightarrow> join sep (a # xs) = a @ sep @ join sep xs"
  by (cases xs) auto

lemma join_py_split: "join sep (py_split sep s) = s"
proof (induction sep s rule: py_split.induct)
  case (1 sep s)
  show ?case
  proof (cases "sep = []")
    case True
    then show ?thesis by (subst py_split.simps) simp
  next
    case False
    show ?thesis
    proof (cases "break_at sep s")
      case None
      with False show ?thesis by (subst py_split.simps) simp
    next
      case (Some ab)
      obtain a b where ab: "ab = (a, b)" by (cases ab)
      have "join sep (py_split sep b) = b"
        using "1.IH" [OF False Some ab [symmetric]] .
      moreover have "s = a @ sep @ b"
        using Some ab break_at_Some by simp
      moreover have "py_split sep s = a # py_split sep b"
        using False Some ab by (subst py_split.simps) simp
      ultimately show ?thesis
        by (simp add: join_Cons py_split_nonempty)
    qed
  qed
qed

lemma tokens_join:
  assumes "\<forall>c \<in> set sep. \<not> is_alnum c" "sep \<noteq> []"
  shows "tokens_from [] (join sep ps) = concat (map (tokens_from []) ps)"
proof (induction ps)
  case Nil
  show ?case by simp
next
  case (Cons p ps)
  show ?case
  proof (cases ps)
    case Nil
    then show ?thesis by simp
  next
    case (Cons q qs)
    obtain c cs where sep: "sep = c # cs" using assms(2) by (cases sep) auto
    have "tokens_from [] (p @ c # (cs @ join sep ps))
          = tokens_from [] p @ tokens_from [] (cs @ join sep ps)"
      using assms(1) sep by (simp add: tokens_from_sep)
    also have "tokens_from [] (cs @ join sep ps) = tokens_from [] (join sep ps)"
      using assms(1) sep by (intro tokens_from_blank0) simp
    finally show ?thesis using Cons.IH Cons sep by simp
  qed
qed

lemma newlines_not_alnum: "\<forall>c \<in> set ''\<newline>\<newline>''. \<not> is_alnum c"
  using space_newline space_not_alnum by auto

lemma tokens_format_paragraphs: "tokens_from [] (format_paragraphs s) = tokens_from [] s"
proof -
  let ?ps = "py_split ''\<newline>\<newline>'' s"
  have blank: "tokens_from [] p = []" if "strip p = []" for p
  proof -
    have "\<forall>c \<in> set p. \<not> is_alnum c"
      using that strip_blank space_not_alnum by blast
    then show ?thesis using tokens_from_blank0 [of p "[]"] by simp
  qed
  have "concat (map (tokens_from []) (map format_paragraph (filter (\<lambda>p. strip p \<noteq> []) ps)))
        = concat (map (tokens_from []) ps)" for ps
    by (induction ps) (simp_all add: tokens_format_paragraph blank)
  then have "tokens_from [] (format_paragraphs s) = concat (map (tokens_from []) ?ps)"
    unfolding format_paragraphs_def using tokens_join [OF newlines_not_alnum] by simp
  also have "\<dots> = tokens_from [] (join ''\<newline>\<newline>'' ?ps)"
    using tokens_join [OF newlines_not_alnum] by simp
  finally show ?thesis by (simp add: join_py_split)
qed

lemma re_sub_word_ci:
  "map lower_char repl = map lower_char pat \<Longrightarrow>
   map lower_char (re_sub_word pat la repl prev s) = map lower_char s"
proof (induction pat la repl prev s rule: re_sub_word.induct)
  case (1 pat lookahead repl prev)
  show ?case by simp
next
  case (2 pat lookahead repl prev c cs)
  let ?m = "pat \<noteq> [] \<and> \<not> prev \<and> startswith (c # cs) pat
         \<and> (lookahead \<longrightarrow>
              \<not> (case drop (length pat) (c # cs) of [] \<Rightarrow> False | d # ds \<Rightarrow> is_letter d))"
  show ?case
  proof (cases ?m)
    case True
    then have "c # cs = pat @ drop (length pat) (c # cs)"
      using startswith_append by blast
    moreover have "drop (length pat) (c # cs) = drop (length pat - 1) cs"
      using True by (cases pat) auto
    ultimately have "map lower_char (c # cs)
        = map lower_char repl @ map lower_char (drop (length pat - 1) cs)"
      using "2.prems" by (metis map_append)
    moreover have "map lower_char (re_sub_word pat lookahead repl (is_letter (last pat)) (drop (length pat - 1) cs))
        = map lower_char (drop (length pat - 1) cs)"
      using "2.IH"(1) [OF True "2.prems"] .
    ultimately show ?thesis using True by simp
  next
    case False
    then show ?thesis using "2.IH"(2) [OF False "2.prems"] by auto
  qed
qed

lemma py_capitalize_ci: "map lower_char (py_capitalize s) = map lower_char s"
  by (cases s) (simp_all add: py_capitalize_def lower_upper_char lower_lower_char)

lemma fix_proper_nouns_ci: "map lower_char (fix_proper_nouns s) = map lower_char s"
proof -
  have "map lower_char (fold (\<lambda>n t. re_sub_word n True (py_capitalize n) False t) ns s)
        = map lower_char s" for ns
    by (induction ns arbitrary: s) (simp_all add: re_sub_word_ci py_capitalize_ci)
  then show ?thesis by (simp add: fix_proper_nouns_def)
qed

lemma fix_possessives_ci: "map lower_char (fix_possessives s) = map lower_char s"
proof -
  have "map lower_char (fold (\<lambda>n t. re_sub_word (n @ [CHR 0x27, CHR ''s'']) False
               (py_capitalize n @ [CHR 0x27, CHR ''s'']) False t) ns s)
        = map lower_char s" for ns
    by (induction ns arbitrary: s) (simp_all add: re_sub_word_ci py_capitalize_ci)
  then show ?thesis by (simp add: fix_possessives_def)
qed

lemma tokens_body:
  "tokens_from []
     (fix_possessives (fix_proper_nouns (format_paragraphs
        (concat (format_sentences (re_split_sentences p))))))
   = tokens_from [] p"
proof -
  let ?a = "concat (format_sentences (re_split_sentences p))"
  have "map lower_char (fix_possessives (fix_proper_nouns (format_paragraphs ?a)))
        = map lower_char (format_paragraphs ?a)"
    by (simp add: fix_possessives_ci fix_proper_nouns_ci)
  then have "tokens_from [] (fix_possessives (fix_proper_nouns (format_paragraphs ?a)))
        = tokens_from [] (format_paragraphs ?a)"
    by (rule tokens_from_ci)
  also have "\<dots> = tokens_from [] ?a" by (rule tokens_format_paragraphs)
  also have "\<dots> = tokens_from [] p"
    using tokens_format_sentences [of "[]" "[]" p] by (simp add: re_split_sentences_def)
  finally show ?thesis .
qed

lemma split_header_decomp:
  assumes "split_header text = (h, c)"
  shows "text = h @ c \<and> (h = [] \<or> (\<exists>a. h = a @ ''\<newline>\<newline>''))"
proof (cases "startswith text ''**'' \<and> contains text ''\<newline>\<newline>''")
  case True
  show ?thesis
  proof (cases "break_at ''\<newline>\<newline>'' text")
    case None
    with True assms show ?thesis by (simp add: split_header_def py_split1_def)
  next
    case (Some ab)
    obtain a b where ab: "ab = (a, b)" by (cases ab)
    with Some have "text = a @ ''\<newline>\<newline>'' @ b" by (intro break_at_Some) simp
    with True assms Some ab show ?thesis
      by (auto simp: split_header_def py_split1_def)
  qed
next
  case False
  with assms show ?thesis by (auto simp: split_header_def)
qed

lemma split_sources_decomp:
  assumes "split_sources content = (p, s)"
  shows "content = p @ s \<and> (s = [] \<or> (\<exists>b. s = CHR ''\<newline>'' # b))"
proof (cases "contains content sources_block_marker")
  case True
  show ?thesis
  proof (cases "break_at sources_block_marker content")
    case None
    with True assms show ?thesis by (simp add: split_sources_def py_split1_def)
  next
    case (Some ab)
    obtain a b where ab: "ab = (a, b)" by (cases ab)
    with Some have "content = a @ sources_block_marker @ b" by (intro break_at_Some) simp
    with True assms Some ab show ?thesis
      by (auto simp: split_sources_def py_split1_def sources_block_marker_def)
  qed
next
  case False
  with assms show ?thesis by (auto simp: split_sources_def)
qed

lemma tokens_format_response_text:
  "tokens_from [] (format_response_text text) = tokens_from [] text"
proof (cases "text = []")
  case True
  then show ?thesis by (simp add: format_response_text_def)
next
  case False
  obtain h c where hc: "split_header text = (h, c)" by (cases "split_header text")
  obtain p s where ps: "split_sources c = (p, s)" by (cases "split_sources c")
  let ?f = "fix_possessives (fix_proper_nouns (format_paragraphs
        (concat (format_sentences (re_split_sentences p)))))"
  have out: "format_response_text text = h @ ?f @ s"
    using False hc ps by (simp add: format_response_text_def Let_def)
  have inp: "text = h @ p @ s"
    using split_header_decomp [OF hc] split_sources_decomp [OF ps] by simp
  have body: "tokens_from [] (?f @ s) = tokens_from [] (p @ s)"
  proof (cases s)
    case Nil
    then show ?thesis by (simp add: tokens_body)
  next
    case (Cons x b)
    then have "x = CHR ''\<newline>''" using split_sources_decomp [OF ps] by simp
    then have "\<not> is_alnum x" using space_newline space_not_alnum by simp
    then show ?thesis using Cons by (simp add: tokens_from_sep tokens_body)
  qed
  have hdr: "tokens_from [] (h @ y) = tokens_from [] h @ tokens_from [] y" for y
  proof (cases "h = []")
    case True
    then show ?thesis by simp
  next
    case False
    then obtain a where a: "h = a @ ''\<newline>\<newline>''"
      using split_header_decomp [OF hc] by blast
    have n: "\<not> is_alnum (CHR ''\<newline>'')" using space_newline space_not_alnum by simp
    have "tokens_from [] (a @ CHR ''\<newline>'' # (CHR ''\<newline>'' # y)) = tokens_from [] a @ tokens_from [] y"
      using n by (simp add: tokens_from_sep)
    moreover have "tokens_from [] (a @ CHR ''\<newline>'' # [CHR ''\<newline>'']) = tokens_from [] a"
      using n by (simp add: tokens_from_sep)
    ultimately show ?thesis using a by simp
  qed
  show ?thesis using out inp hdr body by simp
qed

text \<open>
  Claim C2.  For every input text, the output of \<^verbatim>\<open>_format_response_text\<close> has the same
  alphanumeric word tokens as the input, compared in lower case: the same sequence, hence
  the same multiset.  No word is deleted, duplicated, split or merged.
\<close>

theorem format_response_text_lossless:
  "word_tokens (format_response_text text) = word_tokens text \<and>
   mset (word_tokens (format_response_text text)) = mset (word_tokens text)"
  by (simp add: word_tokens_def tokens_format_response_text)

theorem format_response_text_lossless_witness:
  "word_tokens (format_response_text ''220 killed.israel's military said. ok'')
     = word_tokens ''220 killed.israel's military said. ok'' \<and>
   mset (word_tokens (format_response_text ''220 killed.israel's military said. ok''))
     = mset (word_tokens ''220 killed.israel's military said. ok'')"
  by (rule format_response_text_lossless)

subsection \<open>Sentence boundaries\<close>








subsection \<open>The composer\<close>

lemma fold_add_web_item:
  "fold add_web_item web_data (a, s)
   = (a @ concat (map web_content web_data),
      s @ map (\<lambda>(t, src). ''- '' @ t @ '' ('' @ src @ '')'') (concat (map web_citation web_data)))"
  by (induction web_data arbitrary: a s)
     (auto simp: add_web_item_def web_content_def web_citation_def split: option.splits)

lemma fold_add_db_event:
  "fold add_db_event evs (a, s)
   = (a @ concat (map event_content evs),
      s @ map (\<lambda>(t, src). ''- '' @ t) (concat (map db_citation evs)))"
  by (induction evs arbitrary: a s)
     (auto simp: add_db_event_def db_citation_def split: option.splits)

lemma gather_context_eq:
  "gather_context web_data context_data
   = (concat (map web_content web_data) @ concat (map event_content (take 3 context_data)),
      map (\<lambda>(t, src). ''- '' @ t @ '' ('' @ src @ '')'') (concat (map web_citation web_data))
      @ map (\<lambda>(t, src). ''- '' @ t) (concat (map db_citation (take 3 context_data))))"
  by (simp add: gather_context_def fold_add_web_item fold_add_db_event)

lemma extends_by_refl: "extends_by A st st"
  by (simp add: extends_by_def)

lemma extends_by_trans: "extends_by A a b \<Longrightarrow> extends_by A b c \<Longrightarrow> extends_by A a c"
  by (fastforce simp: extends_by_def)

lemma extends_by_mono: "extends_by A a b \<Longrightarrow> A \<subseteq> B \<Longrightarrow> extends_by B a b"
  by (auto simp: extends_by_def)

lemma extends_by_log: "x \<in> A \<Longrightarrow> extends_by A st (log_call x st)"
  by (simp add: extends_by_def log_call_def)

lemma extends_by_new_calls: "extends_by A st st' \<Longrightarrow> set (new_calls st st') \<subseteq> A"
  by (auto simp: extends_by_def new_calls_def)


lemma extends_by_load_model: "LoadModel \<in> A \<Longrightarrow> extends_by A st (load_model c st)"
  by (simp add: extends_by_def load_model_def log_call_def)

lemma extends_by_load_summarizer: "LoadSummarizer \<in> A \<Longrightarrow> extends_by A st (load_summarizer c st)"
  by (simp add: extends_by_def load_summarizer_def log_call_def)

lemma extends_by_llm_attempt: "Generate p \<in> A \<Longrightarrow> extends_by A st (snd (llm_attempt c p st))"
  by (auto simp: llm_attempt_def extends_by_refl extends_by_log split: sum.splits)

lemma extends_by_call_summarizer: "Summarize t \<in> A \<Longrightarrow> extends_by A st (snd (call_summarizer c t st))"
  by (auto simp: call_summarizer_def extends_by_refl extends_by_log)

lemma extends_by_summarizer_fallback:
  "Summarize a \<in> A \<Longrightarrow> extends_by A st (snd (summarizer_fallback c st q a s))"
  using extends_by_call_summarizer [of a A st c]
  by (auto simp: summarizer_fallback_def extends_by_refl split: prod.splits sum.splits)

lemma extends_by_web:
  assumes "{LoadSummarizer, LoadModel, Generate (web_prompt q (fst (gather_context web db))),
            Summarize (fst (gather_context web db))} \<subseteq> A"
  shows "extends_by A st (snd (generate_web_based_response c st q web db))"
proof -
  let ?st1 = "if \<not> summarizer_loaded st then load_summarizer c st else st"
  let ?st2 = "if \<not> model_loaded ?st1 then load_model c ?st1 else ?st1"
  obtain a s where g: "gather_context web db = (a, s)" by (cases "gather_context web db")
  obtain r st3 where l: "llm_attempt c (web_prompt q a) ?st2 = (r, st3)"
    by (cases "llm_attempt c (web_prompt q a) ?st2")
  have 1: "extends_by A st ?st1"
    using assms by (simp add: extends_by_refl extends_by_load_summarizer)
  have 2: "extends_by A ?st1 ?st2"
    using assms by (simp add: extends_by_refl extends_by_load_model)
  have 3: "extends_by A ?st2 st3"
    using extends_by_llm_attempt [of "web_prompt q a" A ?st2 c] l g assms by simp
  have 4: "extends_by A st3 (snd (summarizer_fallback c st3 q a s))"
    using assms g by (intro extends_by_summarizer_fallback) simp
  have 13: "extends_by A st st3" using 1 2 3 extends_by_trans by blast
  show ?thesis
  proof (cases r)
    case None
    then have "snd (generate_web_based_response c st q web db) = snd (summarizer_fallback c st3 q a s)"
      using g l by (simp add: generate_web_based_response_def Let_def)
    then show ?thesis using 13 4 extends_by_trans by metis
  next
    case (Some x)
    then have "snd (generate_web_based_response c st q web db) = st3"
      using g l by (simp add: generate_web_based_response_def Let_def)
    then show ?thesis using 13 by simp
  qed
qed

text \<open>
  Claim C3.  The context the composer builds for a query with web items is the content of every
  web item, in the order returned, followed by the content of the first three database items
  at most, in the order returned; the fourth and later database items never reach it.  The
  language model and the summarizer are only ever called on that context, and a non-empty web
  list always takes this path.
\<close>

theorem evidence_priority:
  "fst (gather_context web_data context_data)
     = concat (map web_content web_data) @ concat (map event_content (take 3 context_data))
   \<and> gather_context web_data context_data = gather_context web_data (take 3 context_data)
   \<and> (\<forall>x \<in> set (new_calls st (snd (generate_web_based_response c st q web_data context_data))).
        x = LoadSummarizer \<or> x = LoadModel
        \<or> x = Generate (web_prompt q (fst (gather_context web_data context_data)))
        \<or> x = Summarize (fst (gather_context web_data context_data)))
   \<and> (web_data \<noteq> [] \<longrightarrow>
        generate_response c st q context_data web_data
        = (case generate_web_based_response c st q web_data context_data of
             (resp, st') \<Rightarrow> (format_response_text resp, st')))"
proof (intro conjI)
  show "fst (gather_context web_data context_data)
     = concat (map web_content web_data) @ concat (map event_content (take 3 context_data))"
    by (simp add: gather_context_eq)
  show "gather_context web_data context_data = gather_context web_data (take 3 context_data)"
    by (simp add: gather_context_def)
  let ?A = "{LoadSummarizer, LoadModel,
             Generate (web_prompt q (fst (gather_context web_data context_data))),
             Summarize (fst (gather_context web_data context_data))}"
  have "extends_by ?A st (snd (generate_web_based_response c st q web_data context_data))"
    by (rule extends_by_web) simp
  then have "set (new_calls st (snd (generate_web_based_response c st q web_data context_data))) \<subseteq> ?A"
    by (rule extends_by_new_calls)
  then show "\<forall>x \<in> set (new_calls st (snd (generate_web_based_response c st q web_data context_data))).
        x = LoadSummarizer \<or> x = LoadModel
        \<or> x = Generate (web_prompt q (fst (gather_context web_data context_data)))
        \<or> x = Summarize (fst (gather_context web_data context_data))"
    by auto
  show "web_data \<noteq> [] \<longrightarrow>
        generate_response c st q context_data web_data
        = (case generate_web_based_response c st q web_data context_data of
             (resp, st') \<Rightarrow> (format_response_text resp, st'))"
    by (simp add: generate_response_def respond_with_data_def)
qed

theorem evidence_priority_witness:
  "fst (gather_context
         [example_web_item ''W1'' ''Wikipedia'' ''w1'', example_web_item ''W2'' ''Cal Fire'' ''w2'']
         [example_event ''D1'' ''d1'', example_event ''D2'' ''d2'', example_event ''D3'' ''d3'',
          example_event ''D4'' ''d4''])
   = ''w1 \<newline>\<newline>w2 \<newline>\<newline>d1 \<newline>\<newline>d2 \<newline>\<newline>d3 \<newline>\<newline>''"
  using evidence_priority [THEN conjunct1, of
         "[example_web_item ''W1'' ''Wikipedia'' ''w1'', example_web_item ''W2'' ''Cal Fire'' ''w2'']"
         "[example_event ''D1'' ''d1'', example_event ''D2'' ''d2'', example_event ''D3'' ''d3'',
          example_event ''D4'' ''d4'']"]
  by (simp add: web_content_def event_content_def truthy_def example_event_def example_web_item_def)


subsection \<open>Generation and retrieval calls\<close>








subsection \<open>Occurrences of a pattern\<close>

lemma startswith_refl_append: "startswith (p @ b) p"
  by (induction p) auto









subsection \<open>The terminal state without evidence\<close>







subsection \<open>Every answer has a text\<close>




















subsection \<open>The aggregator of \<^verbatim>\<open>llm_response\<close>\<close>










subsection \<open>The source extractor\<close>

lemma break_at_None: "\<not> contains s sep \<Longrightarrow> break_at sep s = None"
  by (induction s) auto

lemma py_split_once:
  assumes "break_at sep s = Some (a, b)" "\<not> contains b sep" "sep \<noteq> []"
  shows "py_split sep s = [a, b]"
proof -
  have "py_split sep b = [b]"
    using assms(2,3) break_at_None by (subst py_split.simps) simp
  then show ?thesis using assms by (subst py_split.simps) simp
qed

lemma break_at_contains: "break_at sep s = Some (a, b) \<Longrightarrow> contains s sep"
proof (induction s arbitrary: a)
  case Nil
  then show ?case by (simp split: if_splits)
next
  case (Cons c cs)
  then show ?case by (cases "startswith (c # cs) sep") auto
qed

lemma extract_sources_once:
  assumes "break_at sources_marker text = Some (a, b)" "\<not> contains b sources_marker"
  shows "extract_sources text
         = \<lparr>response = strip a,
            sources = Some (concat (map parse_source_line (py_split ''\<newline>'' (strip b))))\<rparr>"
proof -
  have "py_split sources_marker text = [a, b]"
    using assms by (intro py_split_once) (simp_all add: sources_marker_def)
  then show ?thesis
    using break_at_contains [OF assms(1)] by (simp add: extract_sources_def)
qed

lemma endswith_append: "endswith (x @ p) p"
  by (simp add: endswith_def startswith_refl_append)

lemma takeWhile_until: "c \<notin> set u \<Longrightarrow> takeWhile (\<lambda>z. z \<noteq> c) (u @ c # v) = u"
  by (induction u) auto

lemma dropWhile_until: "c \<notin> set u \<Longrightarrow> dropWhile (\<lambda>z. z \<noteq> c) (u @ c # v) = c # v"
  by (induction u) auto

lemma rsplit1_last:
  assumes "c \<notin> set y"
  shows "rsplit1 c (x @ c # y) = (x, y)"
proof -
  have "rev (x @ c # y) = rev y @ c # rev x" by simp
  moreover have "takeWhile (\<lambda>z. z \<noteq> c) (rev y @ c # rev x) = rev y"
    using assms by (intro takeWhile_until) simp
  moreover have "dropWhile (\<lambda>z. z \<noteq> c) (rev y @ c # rev x) = c # rev x"
    using assms by (intro dropWhile_until) simp
  ultimately show ?thesis by (simp add: rsplit1_def)
qed

lemma parse_source_line_parenthesized:
  assumes "startswith line ''-''"
      and "strip (drop 1 line) = pre @ ''('' @ src @ '')''"
      and "CHR ''('' \<notin> set src"
  shows "parse_source_line line = [(strip pre, strip src)]"
proof -
  let ?r = "strip (drop 1 line)"
  have e: "endswith ?r '')''"
    using assms(2) endswith_append [of "pre @ ''('' @ src" "'')''"] by simp
  have i: "CHR ''('' \<in> set ?r" using assms(2) by simp
  have "?r = pre @ CHR ''('' # (src @ '')'')" using assms(2) by simp
  moreover have "CHR ''('' \<notin> set (src @ '')'')" using assms(3) by simp
  ultimately have "rsplit1 (CHR ''('') ?r = (pre, src @ '')'')"
    using rsplit1_last by metis
  then show ?thesis
    using assms(1) e i by (simp add: parse_source_line_def Let_def)
qed

lemma parse_source_line_count:
  "length (parse_source_line line) = (if startswith line ''-'' then 1 else 0)"
  by (simp add: parse_source_line_def Let_def split: prod.splits)

lemma parse_source_line_unknown:
  assumes "startswith line ''-''"
      and "\<not> (CHR ''('' \<in> set (strip (drop 1 line)) \<and> endswith (strip (drop 1 line)) '')'')"
  shows "parse_source_line line = [(strip (drop 1 line), ''Unknown'')]"
  using assms by (auto simp: parse_source_line_def Let_def)

text \<open>
  Claim C8, as amended.  When the marker \<^verbatim>\<open>**Sources:**\<close> is absent, the extractor returns the
  whole text and no source list at all (the field \<open>sources\<close> keeps its default \<open>None\<close>, it is not
  an empty list).  When the marker occurs once, the text before it, stripped, is the main
  text, and every line of the stripped text after it that begins with \<^verbatim>\<open>-\<close> yields exactly one
  citation, a line that does not begin with \<^verbatim>\<open>-\<close> none: the rest of the line is split at its
  last \<^verbatim>\<open>(\<close> into title and source when it contains \<^verbatim>\<open>(\<close> and ends with \<^verbatim>\<open>)\<close>, and is
  otherwise the title, with source \<^verbatim>\<open>Unknown\<close>.
\<close>

theorem source_extractor_contract:
  "(\<not> contains text sources_marker \<longrightarrow>
      extract_sources text = \<lparr>response = text, sources = None\<rparr>)
   \<and> (break_at sources_marker text = Some (a, b) \<and> \<not> contains b sources_marker \<longrightarrow>
        text = a @ sources_marker @ b \<and>
        extract_sources text
          = \<lparr>response = strip a,
             sources = Some (concat (map parse_source_line (py_split ''\<newline>'' (strip b))))\<rparr>)
   \<and> length (parse_source_line line) = (if startswith line ''-'' then 1 else 0)
   \<and> (startswith line ''-'' \<and> strip (drop 1 line) = pre @ ''('' @ src @ '')'' \<and> CHR ''('' \<notin> set src
        \<longrightarrow> parse_source_line line = [(strip pre, strip src)])
   \<and> (startswith line ''-'' \<and>
        \<not> (CHR ''('' \<in> set (strip (drop 1 line)) \<and> endswith (strip (drop 1 line)) '')'')
        \<longrightarrow> parse_source_line line = [(strip (drop 1 line), ''Unknown'')])"
  using extract_sources_once [of "text" a b] break_at_Some [of sources_marker "text" a b]
        parse_source_line_parenthesized [of line pre src] parse_source_line_unknown [of line]
  by (simp add: parse_source_line_count extract_sources_def)

theorem source_extractor_contract_witness:
  "extract_sources ''Fire is out.\<newline>\<newline>**Sources:**\<newline>- Camp Fire (Wikipedia)\<newline>- Flood report''
   = \<lparr>response = ''Fire is out.'',
      sources = Some (concat (map parse_source_line [''- Camp Fire (Wikipedia)'', ''- Flood report'']))\<rparr>
   \<and> parse_source_line ''- Camp Fire (Wikipedia)'' = [(''Camp Fire'', ''Wikipedia'')]
   \<and> parse_source_line ''- Flood report'' = [(''Flood report'', ''Unknown'')]"
proof (intro conjI)
  have b: "break_at sources_marker
             ''Fire is out.\<newline>\<newline>**Sources:**\<newline>- Camp Fire (Wikipedia)\<newline>- Flood report''
           = Some (''Fire is out.\<newline>\<newline>'', ''\<newline>- Camp Fire (Wikipedia)\<newline>- Flood report'')"
    by code_simp
  have n: "\<not> contains ''\<newline>- Camp Fire (Wikipedia)\<newline>- Flood report'' sources_marker"
    by code_simp
  have s: "py_split ''\<newline>'' (strip ''\<newline>- Camp Fire (Wikipedia)\<newline>- Flood report'')
           = [''- Camp Fire (Wikipedia)'', ''- Flood report'']"
    by code_simp
  have t: "strip ''Fire is out.\<newline>\<newline>'' = ''Fire is out.''"
    by code_simp
  show "extract_sources ''Fire is out.\<newline>\<newline>**Sources:**\<newline>- Camp Fire (Wikipedia)\<newline>- Flood report''
   = \<lparr>response = ''Fire is out.'',
      sources = Some (concat (map parse_source_line [''- Camp Fire (Wikipedia)'', ''- Flood report'']))\<rparr>"
    using source_extractor_contract [THEN conjunct2, THEN conjunct1, rule_format, OF conjI, OF b n,
            THEN conjunct2]
    by (simp only: s t)
  have p: "strip '' Camp Fire (Wikipedia)'' = ''Camp Fire (Wikipedia)''"
    by code_simp
  have st: "strip ''Camp Fire '' = ''Camp Fire''" "strip ''Wikipedia'' = ''Wikipedia''"
    by code_simp+
  show "parse_source_line ''- Camp Fire (Wikipedia)'' = [(''Camp Fire'', ''Wikipedia'')]"
    using source_extractor_contract [THEN conjunct2, THEN conjunct2, THEN conjunct2, THEN conjunct1,
            rule_format, of "''- Camp Fire (Wikipedia)''" "''Camp Fire ''" "''Wikipedia''"] p
    by (simp add: st)
  have u: "strip '' Flood report'' = ''Flood report''"
    by code_simp
  show "parse_source_line ''- Flood report'' = [(''Flood report'', ''Unknown'')]"
    using source_extractor_contract [THEN conjunct2, THEN conjunct2, THEN conjunct2, THEN conjunct2,
            rule_format, of "''- Flood report''"]
    by (simp add: u)
qed

theorem source_extractor_counterexample:
  "sources (extract_sources ''Fire is out.'') \<noteq> Some []"
  by code_simp

lemma extract_sources_second_marker:
  "extract_sources
     ''Fires spread.\<newline>\<newline>**Sources:**\<newline>- CNN\<newline>\<newline>**Sources:**\<newline>- Camp Fire (Wikipedia)''
   = \<lparr>response = ''Fires spread.'', sources = Some [(''CNN'', ''Unknown'')]\<rparr>"
  by code_simp


subsection \<open>Stripping\<close>











subsection \<open>Citation lines\<close>
















subsection \<open>The citation block\<close>
















subsection \<open>The citation block through the normalizer\<close>
























end
